theory Spec2Isabelle
  imports Main
begin

section \<open>Values stored behind \<open>interface{}\<close>\<close>

text \<open>
  The registry of \<^verbatim>\<open>rwregistry.go\<close> stores values of Go's empty interface type. The
  source asks three things of such a value: which of the seven metric interfaces its
  dynamic type implements (the type switch in \<^verbatim>\<open>register\<close>, the type assertion in
  \<^verbatim>\<open>RunHealthchecks\<close>), whether its reflected kind is \<^verbatim>\<open>reflect.Func\<close>
  (\<^verbatim>\<open>GetOrRegister\<close>), and which instance it is. A value is therefore the nil interface
  or a dynamic value carrying an identity, a kind and the set of interfaces implemented.
\<close>

datatype capability = Counter | Gauge | GaugeFloat64 | Healthcheck | Histogram | Meter | Timer

text \<open>
  A function value is nil or a closure: \<open>code\<close> names its body in the environment of
  function bodies, \<open>NumIn\<close> and \<open>IsVariadic\<close> are what \<^verbatim>\<open>reflect.Type\<close> reports.
\<close>

datatype func = NilFunc | Fn (code: nat) (NumIn: nat) (IsVariadic: bool)

datatype kind = Func func | Other

datatype iface = GoNil | Dyn nat kind "capability set"

text \<open>The type assertion \<^verbatim>\<open>_, ok := i.(C)\<close>: it fails on the nil interface.\<close>

fun satisfies :: "iface \<Rightarrow> capability \<Rightarrow> bool" where
  "satisfies GoNil c = False"
| "satisfies (Dyn a k cs) c = (c \<in> cs)"

section \<open>Failures and errors\<close>

text \<open>
  \<open>error\<close> is the value returned through Go's \<^verbatim>\<open>error\<close> result. A \<open>failure\<close> is a call
  that does not return: a panic, or a goroutine blocked for ever on a lock it holds
  itself.
\<close>

datatype error = DuplicateMetric string

datatype failure = Deadlock | Panic string

section \<open>The registry and its lock\<close>

record rwmutex =
  readers :: nat
  writer :: bool

record ReadWriteRegistry =
  metrics :: "string \<rightharpoonup> iface"
  mutex :: rwmutex

definition NewReadWriteRegistry :: ReadWriteRegistry where
  "NewReadWriteRegistry = \<lparr>metrics = Map.empty, mutex = \<lparr>readers = 0, writer = False\<rparr>\<rparr>"

text \<open>
  \<^verbatim>\<open>sync.RWMutex\<close> as one goroutine sees it: a read lock is granted unless the writer
  holds the lock, the write lock is granted only when nobody holds the lock, and a
  request that cannot be granted never returns. Unlocking a lock that is not held is a
  fatal error of the runtime.
\<close>

definition RLock :: "ReadWriteRegistry \<Rightarrow> failure + ReadWriteRegistry" where
  "RLock r =
     (if writer (mutex r) then Inl Deadlock
      else Inr (r\<lparr>mutex := (mutex r)\<lparr>readers := Suc (readers (mutex r))\<rparr>\<rparr>))"

definition RUnlock :: "ReadWriteRegistry \<Rightarrow> failure + ReadWriteRegistry" where
  "RUnlock r =
     (if readers (mutex r) = 0 then Inl (Panic ''sync: RUnlock of unlocked RWMutex'')
      else Inr (r\<lparr>mutex := (mutex r)\<lparr>readers := readers (mutex r) - 1\<rparr>\<rparr>))"

definition Lock :: "ReadWriteRegistry \<Rightarrow> failure + ReadWriteRegistry" where
  "Lock r =
     (if writer (mutex r) \<or> readers (mutex r) \<noteq> 0 then Inl Deadlock
      else Inr (r\<lparr>mutex := (mutex r)\<lparr>writer := True\<rparr>\<rparr>))"

definition Unlock :: "ReadWriteRegistry \<Rightarrow> failure + ReadWriteRegistry" where
  "Unlock r =
     (if \<not> writer (mutex r) then Inl (Panic ''sync: Unlock of unlocked RWMutex'')
      else Inr (r\<lparr>mutex := (mutex r)\<lparr>writer := False\<rparr>\<rparr>))"

text \<open>The calling goroutine holds no lock of the registry.\<close>

definition unlocked :: "ReadWriteRegistry \<Rightarrow> bool" where
  "unlocked r = (readers (mutex r) = 0 \<and> \<not> writer (mutex r))"

section \<open>Registration and lookup\<close>

text \<open>
  The type switch of \<^verbatim>\<open>register\<close>:
  \<^verbatim>\<open>case Counter, Gauge, GaugeFloat64, Healthcheck, Histogram, Meter, Timer\<close>.
\<close>

definition recognized :: "iface \<Rightarrow> bool" where
  "recognized i =
     (satisfies i Counter \<or> satisfies i Gauge \<or> satisfies i GaugeFloat64 \<or>
      satisfies i Healthcheck \<or> satisfies i Histogram \<or> satisfies i Meter \<or>
      satisfies i Timer)"

definition register :: "string \<Rightarrow> iface \<Rightarrow> ReadWriteRegistry \<Rightarrow> error option \<times> ReadWriteRegistry" where
  "register name i r =
     (case metrics r name of
        Some _ \<Rightarrow> (Some (DuplicateMetric name), r)
      | None \<Rightarrow>
          if recognized i then (None, r\<lparr>metrics := (metrics r)(name \<mapsto> i)\<rparr>)
          else (None, r))"

text \<open>
  \<^verbatim>\<open>Register\<close>: the write lock is taken, \<^verbatim>\<open>register\<close> runs, the deferred unlock runs,
  and the error of \<^verbatim>\<open>register\<close> is returned.
\<close>

definition Register :: "string \<Rightarrow> iface \<Rightarrow> ReadWriteRegistry \<Rightarrow> failure + (error option \<times> ReadWriteRegistry)" where
  "Register name i r =
     (case Lock r of
        Inl e \<Rightarrow> Inl e
      | Inr r1 \<Rightarrow>
          (case register name i r1 of
             (err, r2) \<Rightarrow>
               (case Unlock r2 of Inl e \<Rightarrow> Inl e | Inr r3 \<Rightarrow> Inr (err, r3))))"

text \<open>
  \<^verbatim>\<open>Get\<close>: indexing a Go map with a missing key gives the zero value, here the nil
  interface.
\<close>

definition Get :: "string \<Rightarrow> ReadWriteRegistry \<Rightarrow> failure + (iface \<times> ReadWriteRegistry)" where
  "Get name r =
     (case RLock r of
        Inl e \<Rightarrow> Inl e
      | Inr r1 \<Rightarrow>
          (case RUnlock r1 of
             Inl e \<Rightarrow> Inl e
           | Inr r2 \<Rightarrow> Inr (case metrics r1 name of None \<Rightarrow> GoNil | Some i \<Rightarrow> i, r2)))"

definition Unregister :: "string \<Rightarrow> ReadWriteRegistry \<Rightarrow> failure + ReadWriteRegistry" where
  "Unregister name r =
     (case Lock r of
        Inl e \<Rightarrow> Inl e
      | Inr r1 \<Rightarrow> Unlock (r1\<lparr>metrics := (metrics r1)(name := None)\<rparr>))"

section \<open>Lazy registration\<close>

text \<open>
  \<^verbatim>\<open>reflect.ValueOf(i).Kind() == reflect.Func\<close>: the kind of the nil interface is
  \<^verbatim>\<open>Invalid\<close>.
\<close>

fun is_Func :: "iface \<Rightarrow> bool" where
  "is_Func (Dyn a (Func fn) cs) = True"
| "is_Func i = False"

text \<open>
  The body of a function value is code outside the registry: it is looked up by its
  \<open>code\<close> in an environment, runs on the registry (it may call the registry's
  operations, no lock being held by \<^verbatim>\<open>GetOrRegister\<close> at that moment) and returns its
  results or fails.
\<close>

type_synonym bodies = "nat \<Rightarrow> ReadWriteRegistry \<Rightarrow> failure + (iface list \<times> ReadWriteRegistry)"

text \<open>
  \<^verbatim>\<open>v.Call(nil)\<close> as \<^verbatim>\<open>reflect.Value.Call\<close> does it: a nil function panics; with \<open>n\<close> the
  number of parameters, less one when the function is variadic, an empty argument list
  panics when it is shorter than \<open>n\<close>; otherwise the body runs.
\<close>

definition Call_nil :: "bodies \<Rightarrow> func \<Rightarrow> ReadWriteRegistry \<Rightarrow> failure + (iface list \<times> ReadWriteRegistry)" where
  "Call_nil env fn r =
     (case fn of
        NilFunc \<Rightarrow> Inl (Panic ''reflect.Value.Call: call of nil function'')
      | Fn c n variadic \<Rightarrow>
          if 0 < (if variadic then n - 1 else n)
          then Inl (Panic ''reflect: Call with too few input arguments'')
          else env c r)"

text \<open>The index expression \<^verbatim>\<open>[0]\<close> on the slice of results.\<close>

definition first_result :: "iface list \<Rightarrow> failure + iface" where
  "first_result vs =
     (case vs of [] \<Rightarrow> Inl (Panic ''index out of range [0] with length 0'') | v # _ \<Rightarrow> Inr v)"

text \<open>
  Lines 45 to 47 of \<^verbatim>\<open>GetOrRegister\<close>. Beside the value and the registry, the list of
  the bodies that these lines invoked is returned, in order: it is an observation of the
  run, not data of the program.
\<close>

definition materialize :: "bodies \<Rightarrow> iface \<Rightarrow> ReadWriteRegistry \<Rightarrow> failure + ((iface \<times> nat list) \<times> ReadWriteRegistry)" where
  "materialize env i r =
     (case i of
        Dyn a (Func fn) cs \<Rightarrow>
          (case Call_nil env fn r of
             Inl e \<Rightarrow> Inl e
           | Inr (vs, r1) \<Rightarrow>
               (case first_result vs of
                  Inl e \<Rightarrow> Inl e
                | Inr v \<Rightarrow> Inr ((v, [code fn]), r1)))
      | _ \<Rightarrow> Inr ((i, []), r))"

text \<open>
  \<^verbatim>\<open>GetOrRegister\<close>: the optimistic read under the read lock; then, with no lock held,
  the argument is materialized; then \<^verbatim>\<open>register\<close> runs under the write lock and its
  error is dropped.
\<close>

definition GetOrRegister :: "bodies \<Rightarrow> string \<Rightarrow> iface \<Rightarrow> ReadWriteRegistry \<Rightarrow> failure + ((iface \<times> nat list) \<times> ReadWriteRegistry)" where
  "GetOrRegister env name i r =
     (case RLock r of
        Inl e \<Rightarrow> Inl e
      | Inr r1 \<Rightarrow>
          (case metrics r1 name of
             Some metric \<Rightarrow>
               (case RUnlock r1 of Inl e \<Rightarrow> Inl e | Inr r2 \<Rightarrow> Inr ((metric, []), r2))
           | None \<Rightarrow>
               (case RUnlock r1 of
                  Inl e \<Rightarrow> Inl e
                | Inr r2 \<Rightarrow>
                    (case materialize env i r2 of
                       Inl e \<Rightarrow> Inl e
                     | Inr ((v, calls), r3) \<Rightarrow>
                         (case Lock r3 of
                            Inl e \<Rightarrow> Inl e
                          | Inr r4 \<Rightarrow>
                              (case Unlock (snd (register name v r4)) of
                                 Inl e \<Rightarrow> Inl e
                               | Inr r5 \<Rightarrow> Inr ((v, calls), r5)))))))"

section \<open>Iteration over the map\<close>

text \<open>
  Go leaves the order of \<^verbatim>\<open>range\<close> over a map unspecified. Each loop over a map takes
  the order in which the runtime reaches the keys as a list \<open>ks\<close>; the loop looks the key
  up when it reaches it, so that an entry removed before it is reached is not produced.
  \<open>enumerates ks m\<close> says that \<open>ks\<close> is such an order for the map \<open>m\<close>.
\<close>

definition enumerates :: "string list \<Rightarrow> (string \<rightharpoonup> iface) \<Rightarrow> bool" where
  "enumerates ks m = (distinct ks \<and> set ks = dom m)"

text \<open>The loop of \<^verbatim>\<open>registered\<close>, copying the entries into a fresh map.\<close>

fun copy_each :: "string list \<Rightarrow> (string \<rightharpoonup> iface) \<Rightarrow> (string \<rightharpoonup> iface) \<Rightarrow> (string \<rightharpoonup> iface)" where
  "copy_each [] src dst = dst"
| "copy_each (name # ks) src dst =
     copy_each ks src (case src name of None \<Rightarrow> dst | Some i \<Rightarrow> dst(name \<mapsto> i))"

definition registered :: "string list \<Rightarrow> ReadWriteRegistry \<Rightarrow> failure + ((string \<rightharpoonup> iface) \<times> ReadWriteRegistry)" where
  "registered ks r =
     (case RLock r of
        Inl e \<Rightarrow> Inl e
      | Inr r1 \<Rightarrow>
          (case RUnlock r1 of
             Inl e \<Rightarrow> Inl e
           | Inr r2 \<Rightarrow> Inr (copy_each ks (metrics r1) Map.empty, r2)))"

text \<open>
  The loop of \<^verbatim>\<open>Each\<close> over the snapshot \<open>snap\<close>, a map local to the call. The visitor is
  code outside the registry, running on the registry with no lock held. \<open>seen\<close>
  collects the calls of the visitor, in order.
\<close>

type_synonym visitor = "string \<Rightarrow> iface \<Rightarrow> ReadWriteRegistry \<Rightarrow> failure + ReadWriteRegistry"

fun visit_each :: "visitor \<Rightarrow> string list \<Rightarrow> (string \<rightharpoonup> iface) \<Rightarrow> (string \<times> iface) list \<Rightarrow> ReadWriteRegistry \<Rightarrow> failure + ((string \<times> iface) list \<times> ReadWriteRegistry)" where
  "visit_each f [] snap seen r = Inr (seen, r)"
| "visit_each f (name # ks) snap seen r =
     (case snap name of
        None \<Rightarrow> visit_each f ks snap seen r
      | Some i \<Rightarrow>
          (case f name i r of
             Inl e \<Rightarrow> Inl e
           | Inr r1 \<Rightarrow> visit_each f ks snap (seen @ [(name, i)]) r1))"

text \<open>
  \<^verbatim>\<open>Each\<close>: \<open>ks\<close> is the order of the copying loop over \<^verbatim>\<open>r.metrics\<close>, \<open>ks'\<close> the order
  of the loop over the snapshot.
\<close>

definition Each :: "visitor \<Rightarrow> string list \<Rightarrow> string list \<Rightarrow> ReadWriteRegistry \<Rightarrow> failure + ((string \<times> iface) list \<times> ReadWriteRegistry)" where
  "Each f ks ks' r =
     (case registered ks r of
        Inl e \<Rightarrow> Inl e
      | Inr (snap, r1) \<Rightarrow> visit_each f ks' snap [] r1)"

text \<open>
  The loop of \<^verbatim>\<open>RunHealthchecks\<close> over \<^verbatim>\<open>r.metrics\<close> itself, the read lock being held.
  \<open>chk i\<close> is the body of \<^verbatim>\<open>Check\<close> of the instance \<open>i\<close>; \<open>checked\<close> collects the
  entries whose \<^verbatim>\<open>Check\<close> was called, in order.
\<close>

type_synonym checker = "iface \<Rightarrow> ReadWriteRegistry \<Rightarrow> failure + ReadWriteRegistry"

fun check_each :: "checker \<Rightarrow> string list \<Rightarrow> (string \<times> iface) list \<Rightarrow> ReadWriteRegistry \<Rightarrow> failure + ((string \<times> iface) list \<times> ReadWriteRegistry)" where
  "check_each chk [] checked r = Inr (checked, r)"
| "check_each chk (name # ks) checked r =
     (case metrics r name of
        None \<Rightarrow> check_each chk ks checked r
      | Some i \<Rightarrow>
          if satisfies i Healthcheck
          then (case chk i r of
                  Inl e \<Rightarrow> Inl e
                | Inr r1 \<Rightarrow> check_each chk ks (checked @ [(name, i)]) r1)
          else check_each chk ks checked r)"

definition RunHealthchecks :: "checker \<Rightarrow> string list \<Rightarrow> ReadWriteRegistry \<Rightarrow> failure + ((string \<times> iface) list \<times> ReadWriteRegistry)" where
  "RunHealthchecks chk ks r =
     (case RLock r of
        Inl e \<Rightarrow> Inl e
      | Inr r1 \<Rightarrow>
          (case check_each chk ks [] r1 of
             Inl e \<Rightarrow> Inl e
           | Inr (checked, r2) \<Rightarrow>
               (case RUnlock r2 of Inl e \<Rightarrow> Inl e | Inr r3 \<Rightarrow> Inr (checked, r3))))"

text \<open>The loop of \<^verbatim>\<open>UnregisterAll\<close>, deleting each key that it reaches.\<close>

fun delete_each :: "string list \<Rightarrow> (string \<rightharpoonup> iface) \<Rightarrow> (string \<rightharpoonup> iface)" where
  "delete_each [] m = m"
| "delete_each (name # ks) m =
     delete_each ks (case m name of None \<Rightarrow> m | Some _ \<Rightarrow> m(name := None))"

definition UnregisterAll :: "string list \<Rightarrow> ReadWriteRegistry \<Rightarrow> failure + ReadWriteRegistry" where
  "UnregisterAll ks r =
     (case Lock r of
        Inl e \<Rightarrow> Inl e
      | Inr r1 \<Rightarrow> Unlock (r1\<lparr>metrics := delete_each ks (metrics r1)\<rparr>))"

section \<open>Notions used to state the properties\<close>

text \<open>
  The entries of the map \<open>m\<close>, listed in the order \<open>ks\<close>: what a loop over \<open>m\<close> that
  reaches the keys in this order produces when \<open>m\<close> does not change meanwhile.
\<close>

fun entries_in :: "string list \<Rightarrow> (string \<rightharpoonup> iface) \<Rightarrow> (string \<times> iface) list" where
  "entries_in [] m = []"
| "entries_in (name # ks) m =
     (case m name of None \<Rightarrow> entries_in ks m | Some i \<Rightarrow> (name, i) # entries_in ks m)"

text \<open>The entries among them whose value satisfies \<open>Healthcheck\<close>.\<close>

definition healthchecks_in :: "string list \<Rightarrow> (string \<rightharpoonup> iface) \<Rightarrow> (string \<times> iface) list" where
  "healthchecks_in ks m = filter (\<lambda>(n, i). satisfies i Healthcheck) (entries_in ks m)"

text \<open>
  Calling \<open>g\<close> once for each element of a list, in order, each call on the registry that
  the call before left; a call that fails ends the run.
\<close>

fun call_each :: "('a \<Rightarrow> ReadWriteRegistry \<Rightarrow> failure + ReadWriteRegistry) \<Rightarrow> 'a list \<Rightarrow> ReadWriteRegistry \<Rightarrow> failure + ReadWriteRegistry" where
  "call_each g [] r = Inr r"
| "call_each g (x # xs) r =
     (case g x r of Inl e \<Rightarrow> Inl e | Inr r1 \<Rightarrow> call_each g xs r1)"

text \<open>The calling goroutine holds the read lock, as the loop of \<^verbatim>\<open>RunHealthchecks\<close> does.\<close>

definition rlocked :: "ReadWriteRegistry \<Rightarrow> bool" where
  "rlocked r = (0 < readers (mutex r) \<and> \<not> writer (mutex r))"

section \<open>Concrete registries, values and callbacks\<close>

text \<open>Two counters, a healthcheck and a value of no metric type, such as a string.\<close>

definition counterA :: iface where
  "counterA = Dyn 1 Other {Counter}"

definition counterB :: iface where
  "counterB = Dyn 2 Other {Counter}"

definition healthA :: iface where
  "healthA = Dyn 3 Other {Healthcheck}"

definition plain_value :: iface where
  "plain_value = Dyn 4 Other {}"

text \<open>
  Function values: \<^verbatim>\<open>func() Counter\<close> twice, \<^verbatim>\<open>func()\<close> and \<^verbatim>\<open>func(int) Counter\<close>.
\<close>

definition lazy_counter :: iface where
  "lazy_counter = Dyn 5 (Func (Fn 0 0 False)) {}"

definition reentrant_counter :: iface where
  "reentrant_counter = Dyn 6 (Func (Fn 1 0 False)) {}"

definition no_result_func :: iface where
  "no_result_func = Dyn 7 (Func (Fn 2 0 False)) {}"

definition one_param_func :: iface where
  "one_param_func = Dyn 8 (Func (Fn 0 1 False)) {}"

text \<open>
  Their bodies: body 0 returns \<open>counterA\<close>; body 1 registers \<open>counterB\<close> under the name
  \<^verbatim>\<open>requests\<close> and then returns \<open>counterA\<close>; every other body returns no result.
\<close>

definition example_bodies :: bodies where
  "example_bodies c r =
     (if c = 0 then Inr ([counterA], r)
      else if c = 1 then
        (case Register ''requests'' counterB r of
           Inl e \<Rightarrow> Inl e
         | Inr (err, r1) \<Rightarrow> Inr ([counterA], r1))
      else Inr ([], r))"

definition reg_requests :: ReadWriteRegistry where
  "reg_requests = NewReadWriteRegistry\<lparr>metrics := [''requests'' \<mapsto> counterA]\<rparr>"

definition reg_requestsB :: ReadWriteRegistry where
  "reg_requestsB = NewReadWriteRegistry\<lparr>metrics := [''requests'' \<mapsto> counterB]\<rparr>"

definition reg_two :: ReadWriteRegistry where
  "reg_two = NewReadWriteRegistry\<lparr>metrics := [''requests'' \<mapsto> counterA, ''db'' \<mapsto> healthA]\<rparr>"

definition reg_seen :: ReadWriteRegistry where
  "reg_seen = NewReadWriteRegistry\<lparr>metrics := [''db-seen'' \<mapsto> healthA, ''requests-seen'' \<mapsto> counterA]\<rparr>"

text \<open>
  A visitor that unregisters both names of \<open>reg_two\<close>, whichever entry it is shown, and
  registers the value it is shown under a name of its own.
\<close>

definition mutating_visitor :: visitor where
  "mutating_visitor name i r =
     (case Unregister ''requests'' r of
        Inl e \<Rightarrow> Inl e
      | Inr r1 \<Rightarrow>
          (case Unregister ''db'' r1 of
             Inl e \<Rightarrow> Inl e
           | Inr r2 \<Rightarrow>
               (case Register (name @ ''-seen'') i r2 of
                  Inl e \<Rightarrow> Inl e
                | Inr (err, r3) \<Rightarrow> Inr r3)))"

text \<open>A \<^verbatim>\<open>Check\<close> that looks a name up in the registry, and one that panics.\<close>

definition reading_check :: checker where
  "reading_check i r =
     (case Get ''requests'' r of Inl e \<Rightarrow> Inl e | Inr (found, r1) \<Rightarrow> Inr r1)"

definition panicking_check :: checker where
  "panicking_check i r = Inl (Panic ''check failed'')"

section \<open>Lock discipline\<close>

lemma read_section:
  assumes "unlocked r"
  shows "RLock r = Inr (r\<lparr>mutex := \<lparr>readers = Suc 0, writer = False\<rparr>\<rparr>)"
    and "RUnlock (r\<lparr>mutex := \<lparr>readers = Suc 0, writer = False\<rparr>\<rparr>) = Inr r"
  using assms by (cases r; simp add: RLock_def RUnlock_def unlocked_def)+

lemma Get_unlocked:
  "unlocked r \<Longrightarrow> Get name r = Inr (case metrics r name of None \<Rightarrow> GoNil | Some i \<Rightarrow> i, r)"
  by (simp add: Get_def read_section)

lemma Register_unlocked:
  assumes "unlocked r"
  shows "Register name i r = Inr (register name i r)"
  using assms
  by (cases r; cases "metrics r name")
     (simp_all add: Register_def register_def Lock_def Unlock_def unlocked_def)

lemma Unregister_unlocked:
  "unlocked r \<Longrightarrow> Unregister name r = Inr (r\<lparr>metrics := (metrics r)(name := None)\<rparr>)"
  by (cases r) (simp add: Unregister_def Lock_def Unlock_def unlocked_def)

lemma UnregisterAll_unlocked:
  "unlocked r \<Longrightarrow> UnregisterAll ks r = Inr (r\<lparr>metrics := delete_each ks (metrics r)\<rparr>)"
  by (cases r) (simp add: UnregisterAll_def Lock_def Unlock_def unlocked_def)

lemma unlocked_metrics_update [simp]: "unlocked (r\<lparr>metrics := m\<rparr>) = unlocked r"
  by (simp add: unlocked_def)

lemma unlocked_register: "unlocked r \<Longrightarrow> unlocked (snd (register name i r))"
  by (simp add: register_def split: option.splits)

lemma register_present: "metrics r n \<noteq> None \<Longrightarrow> register n v r = (Some (DuplicateMetric n), r)"
  by (auto simp: register_def)

lemma register_snd:
  "snd (register n v r) = (if metrics r n = None \<and> recognized v then r\<lparr>metrics := (metrics r)(n \<mapsto> v)\<rparr> else r)"
  by (simp add: register_def split: option.splits)

lemma recognized_iff: "recognized i \<longleftrightarrow> (\<exists>c. satisfies i c)"
proof
  assume "recognized i"
  then show "\<exists>c. satisfies i c" by (auto simp: recognized_def)
next
  assume "\<exists>c. satisfies i c"
  then obtain c where "satisfies i c" ..
  then show "recognized i" by (cases c) (simp_all add: recognized_def)
qed

section \<open>The insert path of \<open>GetOrRegister\<close>\<close>

lemma materialize_literal: "\<not> is_Func i \<Longrightarrow> materialize env i r = Inr ((i, []), r)"
  by (cases i rule: is_Func.cases) (simp_all add: materialize_def)

lemma materialize_factory:
  assumes "(if variadic then n - 1 else n) = 0" "env c r = Inr (v # vs, r1)"
  shows "materialize env (Dyn a (Func (Fn c n variadic)) cs) r = Inr ((v, [c]), r1)"
  using assms by (simp add: materialize_def Call_nil_def first_result_def)

lemma materialize_func_result:
  assumes "materialize env (Dyn a (Func fn) cs) r = Inr ((v, calls), r1)"
  shows "calls = [code fn] \<and> (\<exists>vs. env (code fn) r = Inr (v # vs, r1))"
  using assms
  by (cases fn)
     (auto simp: materialize_def Call_nil_def first_result_def
           split: if_splits sum.splits list.splits)

lemma insert_locked:
  assumes "unlocked r1"
  shows "(case Lock r1 of
            Inl e \<Rightarrow> Inl e
          | Inr r4 \<Rightarrow>
              (case Unlock (snd (register name v r4)) of
                 Inl e \<Rightarrow> Inl e
               | Inr r5 \<Rightarrow> Inr (x, r5)))
         = Inr (x, snd (register name v r1))"
  using assms
  by (cases r1; cases "metrics r1 name")
     (simp_all add: Lock_def Unlock_def register_def unlocked_def)

lemma GetOrRegister_present:
  assumes "unlocked r" "metrics r name = Some m"
  shows "GetOrRegister env name i r = Inr ((m, []), r)"
  using assms by (simp add: GetOrRegister_def read_section)

lemma GetOrRegister_absent:
  assumes "unlocked r" "metrics r name = None"
    and "materialize env i r = Inr ((v, calls), r1)" "unlocked r1"
  shows "GetOrRegister env name i r = Inr ((v, calls), snd (register name v r1))"
  using assms(2,3) insert_locked [OF assms(4), of "(v, calls)" name v]
  by (simp add: GetOrRegister_def read_section [OF assms(1)])

lemma GetOrRegister_failure:
  assumes "unlocked r" "metrics r name = None" "materialize env i r = Inl e"
  shows "GetOrRegister env name i r = Inl e"
  using assms(2,3) by (simp add: GetOrRegister_def read_section [OF assms(1)])

lemma GetOrRegister_result:
  assumes "unlocked r" "metrics r name = None"
    and "GetOrRegister env name i r = Inr ((v, calls), r')"
  shows "\<exists>r1. materialize env i r = Inr ((v, calls), r1)"
  using assms(2,3)
  by (auto simp: GetOrRegister_def read_section [OF assms(1)] split: sum.splits prod.splits)

section \<open>The loops over the map\<close>

lemma copy_each_eq: "copy_each ks src dst = dst ++ (src |` set ks)"
proof (induction ks arbitrary: dst)
  case Nil
  show ?case by simp
next
  case (Cons k ks)
  show ?case
    by (rule ext) (auto simp: Cons.IH map_add_def restrict_map_def split: option.splits)
qed

lemma copy_each_enumerates: "enumerates ks m \<Longrightarrow> copy_each ks m Map.empty = m"
  by (rule ext) (auto simp: copy_each_eq enumerates_def restrict_map_def)

lemma registered_unlocked:
  assumes "unlocked r" "enumerates ks (metrics r)"
  shows "registered ks r = Inr (metrics r, r)"
  using assms(2) by (simp add: registered_def read_section [OF assms(1)] copy_each_enumerates)

lemma delete_each_eq: "delete_each ks m = m |` (- set ks)"
proof (induction ks arbitrary: m)
  case Nil
  show ?case by simp
next
  case (Cons k ks)
  show ?case
    by (rule ext) (auto simp: Cons.IH restrict_map_def split: option.splits)
qed

lemma delete_each_all: "dom m \<subseteq> set ks \<Longrightarrow> delete_each ks m = Map.empty"
  by (rule ext) (auto simp: delete_each_eq restrict_map_def)

lemma set_entries_in: "set (entries_in ks m) = {(n, i). n \<in> set ks \<and> m n = Some i}"
  by (induction ks) (auto split: option.splits)

lemma distinct_entries_in: "distinct ks \<Longrightarrow> distinct (entries_in ks m)"
  by (induction ks) (auto simp: set_entries_in split: option.splits)

lemma entries_in_enumerates:
  assumes "enumerates ks m"
  shows "distinct (entries_in ks m) \<and> set (entries_in ks m) = {(n, i). m n = Some i}"
  using assms by (auto simp: enumerates_def distinct_entries_in set_entries_in)

lemma visit_each_calls:
  "visit_each f ks snap seen r =
     (case call_each (\<lambda>(n, i). f n i) (entries_in ks snap) r of
        Inl e \<Rightarrow> Inl e
      | Inr r' \<Rightarrow> Inr (seen @ entries_in ks snap, r'))"
proof (induction ks arbitrary: seen r)
  case Nil
  show ?case by simp
next
  case (Cons k ks)
  show ?case
  proof (cases "snap k")
    case None
    then show ?thesis by (simp add: Cons.IH split: sum.splits)
  next
    case (Some i)
    then show ?thesis by (simp add: Cons.IH split: sum.splits)
  qed
qed

lemma call_each_total:
  assumes g_ok: "\<forall>x s. unlocked s \<longrightarrow> (\<exists>s'. g x s = Inr s' \<and> unlocked s')"
  shows "unlocked r \<Longrightarrow> \<exists>r'. call_each g xs r = Inr r' \<and> unlocked r'"
proof (induction xs arbitrary: r)
  case Nil
  then show ?case by simp
next
  case (Cons x xs)
  from g_ok Cons.prems obtain s' where s': "g x r = Inr s'" "unlocked s'"
    by blast
  from Cons.IH [OF s'(2)] s'(1) show ?case by simp
qed

lemma visit_each_empty: "visit_each f ks Map.empty seen r = Inr (seen, r)"
  by (induction ks) simp_all

lemma check_each_calls:
  assumes keeps: "\<forall>i s s'. chk i s = Inr s' \<longrightarrow> metrics s' = metrics s"
  shows "check_each chk ks checked r =
     (case call_each (\<lambda>(n, i). chk i)
             (filter (\<lambda>(n, i). satisfies i Healthcheck) (entries_in ks (metrics r))) r of
        Inl e \<Rightarrow> Inl e
      | Inr r' \<Rightarrow>
          Inr (checked @ filter (\<lambda>(n, i). satisfies i Healthcheck) (entries_in ks (metrics r)), r'))"
proof (induction ks arbitrary: checked r)
  case Nil
  show ?case by simp
next
  case (Cons k ks)
  show ?case
  proof (cases "metrics r k")
    case None
    then show ?thesis by (simp add: Cons.IH split: sum.splits)
  next
    case (Some i)
    show ?thesis
    proof (cases "satisfies i Healthcheck")
      case False
      with Some show ?thesis by (simp add: Cons.IH split: sum.splits)
    next
      case True
      show ?thesis
      proof (cases "chk i r")
        case (Inl e)
        with Some True show ?thesis by simp
      next
        case (Inr r1)
        with keeps have "metrics r1 = metrics r" by blast
        with Some True Inr show ?thesis by (simp add: Cons.IH split: sum.splits)
      qed
    qed
  qed
qed

lemma call_each_same:
  assumes "\<forall>x s. rlocked s \<longrightarrow> g x s = Inr s" and "rlocked r"
  shows "call_each g xs r = Inr r"
  using assms by (induction xs) simp_all

section \<open>Concrete inputs\<close>

lemma unlocked_examples:
  "unlocked NewReadWriteRegistry" "unlocked reg_requests" "unlocked reg_requestsB" "unlocked reg_two"
  by (simp_all add: unlocked_def NewReadWriteRegistry_def reg_requests_def reg_requestsB_def reg_two_def)

lemma example_bodies_simps:
  "example_bodies 0 r = Inr ([counterA], r)"
  "unlocked r \<Longrightarrow> example_bodies (Suc 0) r = Inr ([counterA], snd (register ''requests'' counterB r))"
  "example_bodies 2 r = Inr ([], r)"
  by (simp_all add: example_bodies_def Register_unlocked split: prod.splits)

lemma enumerates_reg_two:
  "enumerates [''requests'', ''db''] (metrics reg_two)"
  "enumerates [''db'', ''requests''] (metrics reg_two)"
  by (auto simp: enumerates_def reg_two_def NewReadWriteRegistry_def)

lemma mutating_visitor_unlocked:
  assumes "unlocked s"
  shows "mutating_visitor n i s =
           Inr (snd (register (n @ ''-seen'') i
                  (s\<lparr>metrics := (metrics s)(''requests'' := None, ''db'' := None)\<rparr>)))"
proof -
  let ?s1 = "s\<lparr>metrics := (metrics s)(''requests'' := None)\<rparr>"
  have u1: "unlocked ?s1" using assms by simp
  let ?s2 = "?s1\<lparr>metrics := (metrics ?s1)(''db'' := None)\<rparr>"
  have u2: "unlocked ?s2" using assms by simp
  show ?thesis
    using Register_unlocked [OF u2, of "n @ ''-seen''" i]
    by (simp add: mutating_visitor_def Unregister_unlocked [OF assms] Unregister_unlocked [OF u1]
          split: prod.splits)
qed

lemma mutating_visitor_ok:
  "\<forall>n i s. unlocked s \<longrightarrow> (\<exists>s'. mutating_visitor n i s = Inr s' \<and> unlocked s')"
  by (simp add: mutating_visitor_unlocked unlocked_register)

lemma mutating_visitor_run:
  "call_each (\<lambda>(n, i). mutating_visitor n i) [(''db'', healthA), (''requests'', counterA)] reg_two
     = Inr reg_seen"
proof -
  let ?r1 = "NewReadWriteRegistry\<lparr>metrics := [''db-seen'' \<mapsto> healthA]\<rparr>"
  have m1: "(metrics reg_two)(''requests'' := None, ''db'' := None) = Map.empty"
    by (rule ext) (simp add: reg_two_def NewReadWriteRegistry_def)
  have m2: "[''db-seen'' \<mapsto> healthA](''requests'' := None, ''db'' := None) = [''db-seen'' \<mapsto> healthA]"
    by (rule ext) simp
  have u1: "unlocked ?r1" by (simp add: unlocked_def NewReadWriteRegistry_def)
  have rec: "recognized healthA" "recognized counterA"
    by (simp_all add: recognized_def healthA_def counterA_def)
  have 1: "mutating_visitor ''db'' healthA reg_two = Inr ?r1"
    by (simp add: mutating_visitor_unlocked [OF unlocked_examples(4)] m1 register_snd rec)
       (simp add: reg_two_def NewReadWriteRegistry_def)
  have 2: "mutating_visitor ''requests'' counterA ?r1 = Inr reg_seen"
    by (simp add: mutating_visitor_unlocked [OF u1] m2 register_snd rec)
       (simp add: reg_seen_def NewReadWriteRegistry_def)
  show ?thesis by (simp add: 1 2)
qed

lemma reading_check_ok: "\<forall>i s. rlocked s \<longrightarrow> reading_check i s = Inr s"
proof (intro allI impI)
  fix i s
  assume "rlocked s"
  then show "reading_check i s = Inr s"
    by (cases s) (simp add: reading_check_def Get_def RLock_def RUnlock_def rlocked_def)
qed

section \<open>Register\<close>

text \<open>
  Claim C1. Whenever the name \<open>n\<close> already has an entry, \<open>Register n v\<close>, called by a
  goroutine that holds no lock of the registry, returns \<open>DuplicateMetric n\<close> and leaves
  the registry as it was: the instance stored under \<open>n\<close> is still the one registered
  first, whatever \<open>v\<close> is.
\<close>

theorem Register_duplicate:
  assumes "unlocked r" and "metrics r n = Some first"
  shows "Register n v r = Inr (Some (DuplicateMetric n), r) \<and> Get n r = Inr (first, r)"
  using assms by (simp add: Register_unlocked Get_unlocked register_def)

theorem Register_duplicate_witness:
  "unlocked reg_requests \<and> metrics reg_requests ''requests'' = Some counterA \<and>
   Register ''requests'' counterB reg_requests = Inr (Some (DuplicateMetric ''requests''), reg_requests) \<and>
   Get ''requests'' reg_requests = Inr (counterA, reg_requests)"
  using Register_duplicate [of reg_requests "''requests''" counterA counterB]
  by (simp add: unlocked_examples) (simp add: reg_requests_def)

text \<open>
  Claim C2. Whenever the name \<open>n\<close> has no entry and the value \<open>v\<close> satisfies one of the
  seven metric interfaces, \<open>Register n v\<close> returns no error and a following \<open>Get n\<close>
  returns the instance \<open>v\<close>.
\<close>

theorem Register_fresh:
  assumes "unlocked r" and "metrics r n = None" and "satisfies v c"
  shows "Register n v r = Inr (None, r\<lparr>metrics := (metrics r)(n \<mapsto> v)\<rparr>) \<and>
         Get n (r\<lparr>metrics := (metrics r)(n \<mapsto> v)\<rparr>) = Inr (v, r\<lparr>metrics := (metrics r)(n \<mapsto> v)\<rparr>)"
proof -
  from assms(3) have "recognized v" by (auto simp: recognized_iff)
  with assms(1,2) show ?thesis
    by (simp add: Register_unlocked Get_unlocked register_def)
qed

theorem Register_fresh_witness:
  "unlocked NewReadWriteRegistry \<and> metrics NewReadWriteRegistry ''requests'' = None \<and>
   satisfies counterA Counter \<and>
   Register ''requests'' counterA NewReadWriteRegistry = Inr (None, reg_requests) \<and>
   Get ''requests'' reg_requests = Inr (counterA, reg_requests)"
  using Register_fresh [of NewReadWriteRegistry "''requests''" counterA Counter]
  by (simp add: unlocked_examples) (simp add: NewReadWriteRegistry_def reg_requests_def counterA_def)

text \<open>
  Claim C3. Whenever the name \<open>n\<close> has no entry and the value \<open>v\<close> satisfies none of the
  seven metric interfaces, \<open>Register n v\<close> returns no error and creates no entry, and a
  following \<open>Get n\<close> returns the nil interface.
\<close>

theorem Register_unrecognized:
  assumes "unlocked r" and "metrics r n = None" and "\<forall>c. \<not> satisfies v c"
  shows "Register n v r = Inr (None, r) \<and> Get n r = Inr (GoNil, r)"
proof -
  from assms(3) have "\<not> recognized v" by (simp add: recognized_iff)
  with assms(1,2) show ?thesis
    by (simp add: Register_unlocked Get_unlocked register_def)
qed

theorem Register_unrecognized_witness:
  "unlocked reg_requests \<and> metrics reg_requests ''label'' = None \<and>
   (\<forall>c. \<not> satisfies plain_value c) \<and>
   Register ''label'' plain_value reg_requests = Inr (None, reg_requests) \<and>
   Get ''label'' reg_requests = Inr (GoNil, reg_requests)"
  using Register_unrecognized [of reg_requests "''label''" plain_value]
  by (simp add: unlocked_examples) (simp add: reg_requests_def plain_value_def)

section \<open>UnregisterAll\<close>

text \<open>
  Claim C9. \<open>UnregisterAll\<close> removes every entry, whatever the order in which its loop
  reaches the keys; a following \<open>Each\<close> calls its visitor for no entry; a second
  \<open>UnregisterAll\<close> gives the same registry as the first. Its only result is the
  registry: there is no value and no error.
\<close>

theorem UnregisterAll_clears:
  assumes "unlocked r" and "enumerates ks (metrics r)"
  shows "UnregisterAll ks r = Inr (r\<lparr>metrics := Map.empty\<rparr>) \<and>
         Each f ks1 ks2 (r\<lparr>metrics := Map.empty\<rparr>) = Inr ([], r\<lparr>metrics := Map.empty\<rparr>) \<and>
         UnregisterAll ks3 (r\<lparr>metrics := Map.empty\<rparr>) = Inr (r\<lparr>metrics := Map.empty\<rparr>)"
proof -
  let ?e = "r\<lparr>metrics := Map.empty\<rparr>"
  have e: "unlocked ?e" using assms(1) by simp
  have "delete_each ks (metrics r) = Map.empty"
    using assms(2) by (simp add: delete_each_all enumerates_def)
  then have 1: "UnregisterAll ks r = Inr ?e"
    by (simp add: UnregisterAll_unlocked [OF assms(1)])
  have "registered ks1 ?e = Inr (Map.empty, ?e)"
    by (simp add: registered_def read_section [OF e] copy_each_eq)
  then have 2: "Each f ks1 ks2 ?e = Inr ([], ?e)"
    by (simp add: Each_def visit_each_empty)
  have 3: "UnregisterAll ks3 ?e = Inr ?e"
    by (simp add: UnregisterAll_unlocked [OF e] delete_each_eq)
  from 1 2 3 show ?thesis by simp
qed

theorem UnregisterAll_clears_witness:
  "unlocked reg_two \<and> enumerates [''db'', ''requests''] (metrics reg_two) \<and>
   UnregisterAll [''db'', ''requests''] reg_two = Inr NewReadWriteRegistry \<and>
   Each mutating_visitor [] [] NewReadWriteRegistry = Inr ([], NewReadWriteRegistry) \<and>
   UnregisterAll [] NewReadWriteRegistry = Inr NewReadWriteRegistry"
  using UnregisterAll_clears [of reg_two "[''db'', ''requests'']" mutating_visitor "[]" "[]" "[]"]
  by (simp add: unlocked_examples) (auto simp add: reg_two_def NewReadWriteRegistry_def enumerates_def)

section \<open>GetOrRegister with a literal value\<close>




section \<open>GetOrRegister with a factory\<close>

text \<open>
  The factory of \<open>reentrant_counter\<close> registers another counter under the name
  \<^verbatim>\<open>requests\<close> while it runs. The name is absent when \<open>GetOrRegister\<close> is called and the
  factory's result is a counter, yet the result is returned without being stored:
  \<^verbatim>\<open>register\<close> finds the name taken and its error is dropped.
\<close>

theorem GetOrRegister_reentrant_factory_counterexample:
  "unlocked NewReadWriteRegistry \<and> metrics NewReadWriteRegistry ''requests'' = None \<and>
   recognized counterA \<and>
   GetOrRegister example_bodies ''requests'' reentrant_counter NewReadWriteRegistry =
     Inr ((counterA, [1]), reg_requestsB) \<and>
   Get ''requests'' reg_requestsB = Inr (counterB, reg_requestsB) \<and> counterB \<noteq> counterA"
proof -
  have u: "unlocked NewReadWriteRegistry" by (rule unlocked_examples)
  have a: "metrics NewReadWriteRegistry ''requests'' = None"
    by (simp add: NewReadWriteRegistry_def)
  have b: "example_bodies 1 NewReadWriteRegistry = Inr ([counterA], reg_requestsB)"
    using example_bodies_simps(2) [OF u]
    by (simp add: register_snd recognized_def counterB_def NewReadWriteRegistry_def reg_requestsB_def)
  have m: "materialize example_bodies reentrant_counter NewReadWriteRegistry = Inr ((counterA, [1]), reg_requestsB)"
    using b by (simp add: reentrant_counter_def materialize_factory)
  have "snd (register ''requests'' counterA reg_requestsB) = reg_requestsB"
    by (simp add: register_snd reg_requestsB_def)
  with GetOrRegister_absent [OF u a m unlocked_examples(3)]
  have g: "GetOrRegister example_bodies ''requests'' reentrant_counter NewReadWriteRegistry =
     Inr ((counterA, [1]), reg_requestsB)" by simp
  have "Get ''requests'' reg_requestsB = Inr (counterB, reg_requestsB)"
    by (simp add: Get_unlocked unlocked_examples) (simp add: reg_requestsB_def)
  moreover have "recognized counterA" "counterB \<noteq> counterA"
    by (simp_all add: recognized_def counterA_def counterB_def)
  ultimately show ?thesis using u a g by simp
qed

text \<open>
  Claim C4, as the code has it. If the name \<open>n\<close> is present, \<open>GetOrRegister n i\<close> returns
  the stored instance and invokes nothing, whatever \<open>i\<close> is. If \<open>n\<close> is absent and \<open>i\<close>
  is a function that can be called without arguments, whose body returns at least one
  result with the lock free, the body is invoked exactly once and its first result is
  returned; that result is stored under \<open>n\<close> when it is recognized and \<open>n\<close> is still
  absent once the body has returned, and otherwise the registry is left as the body left
  it.
\<close>

theorem GetOrRegister_factory:
  assumes "unlocked r"
  shows "(metrics r n = Some m \<longrightarrow> GetOrRegister env n i r = Inr ((m, []), r)) \<and>
         (metrics r n = None \<and> i = Dyn a (Func (Fn c k variadic)) cs \<and>
          (if variadic then k - 1 else k) = 0 \<and> env c r = Inr (v # vs, r1) \<and> unlocked r1 \<longrightarrow>
            GetOrRegister env n i r =
              Inr ((v, [c]),
                   if metrics r1 n = None \<and> recognized v then r1\<lparr>metrics := (metrics r1)(n \<mapsto> v)\<rparr>
                   else r1))"
proof (intro conjI impI)
  assume "metrics r n = Some m"
  with assms show "GetOrRegister env n i r = Inr ((m, []), r)"
    by (rule GetOrRegister_present)
next
  assume h: "metrics r n = None \<and> i = Dyn a (Func (Fn c k variadic)) cs \<and>
          (if variadic then k - 1 else k) = 0 \<and> env c r = Inr (v # vs, r1) \<and> unlocked r1"
  then have "materialize env i r = Inr ((v, [c]), r1)"
    by (simp add: materialize_factory)
  from GetOrRegister_absent [OF assms _ this] h
  show "GetOrRegister env n i r =
              Inr ((v, [c]),
                   if metrics r1 n = None \<and> recognized v then r1\<lparr>metrics := (metrics r1)(n \<mapsto> v)\<rparr>
                   else r1)"
    by (simp add: register_snd)
qed

theorem GetOrRegister_factory_witness:
  "unlocked reg_requests \<and> metrics reg_requests ''requests'' = Some counterA \<and>
   GetOrRegister example_bodies ''requests'' lazy_counter reg_requests = Inr ((counterA, []), reg_requests) \<and>
   unlocked NewReadWriteRegistry \<and> metrics NewReadWriteRegistry ''requests'' = None \<and>
   example_bodies 0 NewReadWriteRegistry = Inr ([counterA], NewReadWriteRegistry) \<and>
   GetOrRegister example_bodies ''requests'' lazy_counter NewReadWriteRegistry = Inr ((counterA, [0]), reg_requests)"
  using GetOrRegister_factory [of reg_requests "''requests''" counterA example_bodies lazy_counter]
        GetOrRegister_factory [of NewReadWriteRegistry "''requests''" _ example_bodies lazy_counter
           5 0 0 False "{}" counterA "[]" NewReadWriteRegistry]
  by (simp add: unlocked_examples example_bodies_simps)
     (simp add: lazy_counter_def reg_requests_def NewReadWriteRegistry_def recognized_def counterA_def)

section \<open>GetOrRegister and the duplicate error\<close>

text \<open>
  A function without results, \<^verbatim>\<open>func() {}\<close>, is of kind \<^verbatim>\<open>Func\<close>: it is called, and
  the index \<^verbatim>\<open>[0]\<close> into its empty list of results panics. So \<open>GetOrRegister\<close> does not
  return for every argument.
\<close>

theorem GetOrRegister_no_result_counterexample:
  "unlocked NewReadWriteRegistry \<and> metrics NewReadWriteRegistry ''requests'' = None \<and>
   is_Func no_result_func \<and>
   GetOrRegister example_bodies ''requests'' no_result_func NewReadWriteRegistry =
     Inl (Panic ''index out of range [0] with length 0'')"
proof -
  have u: "unlocked NewReadWriteRegistry" by (rule unlocked_examples)
  have a: "metrics NewReadWriteRegistry ''requests'' = None"
    by (simp add: NewReadWriteRegistry_def)
  have m: "materialize example_bodies no_result_func NewReadWriteRegistry =
     Inl (Panic ''index out of range [0] with length 0'')"
    by (simp add: no_result_func_def materialize_def Call_nil_def first_result_def example_bodies_simps)
  from GetOrRegister_failure [OF u a m] u a show ?thesis
    by (simp add: no_result_func_def)
qed

text \<open>
  Claim C5, as the code has it. \<open>GetOrRegister\<close> returns a value, and has no error
  result, whenever the name is present or the argument is not a function, and whenever
  the argument is a function that can be called without arguments whose body returns at
  least one result with the lock free. In the last case this holds also when the body
  left an entry under \<open>n\<close>: the insert of \<open>GetOrRegister\<close> then collides, \<^verbatim>\<open>register\<close>
  reports \<open>DuplicateMetric n\<close>, and \<open>GetOrRegister\<close> drops that error, returns the body's
  result and leaves the registry as the body left it. \<open>Register\<close> is the operation that
  returns \<open>DuplicateMetric n\<close>, exactly when \<open>n\<close> is present.
\<close>

theorem GetOrRegister_suppresses_duplicate:
  assumes "unlocked r"
  shows "(metrics r n \<noteq> None \<or> \<not> is_Func i \<longrightarrow>
            (\<exists>v r'. GetOrRegister env n i r = Inr ((v, []), r') \<and> unlocked r')) \<and>
         (metrics r n = None \<and> i = Dyn a (Func (Fn c k variadic)) cs \<and>
          (if variadic then k - 1 else k) = 0 \<and> env c r = Inr (v # vs, r1) \<and> unlocked r1 \<longrightarrow>
            (\<exists>r'. GetOrRegister env n i r = Inr ((v, [c]), r') \<and> unlocked r') \<and>
            (metrics r1 n \<noteq> None \<longrightarrow>
               fst (register n v r1) = Some (DuplicateMetric n) \<and>
               GetOrRegister env n i r = Inr ((v, [c]), r1))) \<and>
         Register n i r =
           Inr (if metrics r n = None then None else Some (DuplicateMetric n), snd (register n i r))"
proof (intro conjI impI)
  assume h: "metrics r n \<noteq> None \<or> \<not> is_Func i"
  show "\<exists>v r'. GetOrRegister env n i r = Inr ((v, []), r') \<and> unlocked r'"
  proof (cases "metrics r n")
    case (Some m)
    with assms show ?thesis by (simp add: GetOrRegister_present)
  next
    case None
    with h have "\<not> is_Func i" by simp
    from GetOrRegister_absent [OF assms None materialize_literal [OF this] assms]
    show ?thesis using assms by (simp add: unlocked_register)
  qed
next
  assume h: "metrics r n = None \<and> i = Dyn a (Func (Fn c k variadic)) cs \<and>
          (if variadic then k - 1 else k) = 0 \<and> env c r = Inr (v # vs, r1) \<and> unlocked r1"
  then have "materialize env i r = Inr ((v, [c]), r1)"
    by (simp add: materialize_factory)
  from GetOrRegister_absent [OF assms _ this] h
  have g: "GetOrRegister env n i r = Inr ((v, [c]), snd (register n v r1))"
    by simp
  with h show "\<exists>r'. GetOrRegister env n i r = Inr ((v, [c]), r') \<and> unlocked r'"
    by (simp add: unlocked_register)
  assume "metrics r1 n \<noteq> None"
  then have p: "register n v r1 = (Some (DuplicateMetric n), r1)"
    by (rule register_present)
  then show "fst (register n v r1) = Some (DuplicateMetric n)"
    by simp
  from p g show "GetOrRegister env n i r = Inr ((v, [c]), r1)"
    by simp
next
  show "Register n i r =
           Inr (if metrics r n = None then None else Some (DuplicateMetric n), snd (register n i r))"
    using assms by (auto simp: Register_unlocked register_def)
qed

theorem GetOrRegister_suppresses_duplicate_witness:
  "unlocked reg_requests \<and> \<not> is_Func plain_value \<and>
   (\<exists>v r'. GetOrRegister example_bodies ''label'' plain_value reg_requests = Inr ((v, []), r') \<and> unlocked r') \<and>
   unlocked NewReadWriteRegistry \<and> metrics NewReadWriteRegistry ''requests'' = None \<and>
   example_bodies 1 NewReadWriteRegistry = Inr ([counterA], reg_requestsB) \<and>
   unlocked reg_requestsB \<and> metrics reg_requestsB ''requests'' \<noteq> None \<and>
   fst (register ''requests'' counterA reg_requestsB) = Some (DuplicateMetric ''requests'') \<and>
   GetOrRegister example_bodies ''requests'' reentrant_counter NewReadWriteRegistry =
     Inr ((counterA, [1]), reg_requestsB) \<and>
   Register ''requests'' counterA reg_requestsB = Inr (Some (DuplicateMetric ''requests''), reg_requestsB)"
proof -
  have b: "example_bodies (Suc 0) NewReadWriteRegistry = Inr ([counterA], reg_requestsB)"
    using example_bodies_simps(2) [OF unlocked_examples(1)]
    by (simp add: register_snd recognized_def counterB_def NewReadWriteRegistry_def reg_requestsB_def)
  have p: "\<not> is_Func plain_value" by (simp add: plain_value_def)
  have a: "metrics NewReadWriteRegistry ''requests'' = None" "metrics reg_requestsB ''requests'' \<noteq> None"
    by (simp_all add: NewReadWriteRegistry_def reg_requestsB_def)
  have s: "register ''requests'' counterA reg_requestsB = (Some (DuplicateMetric ''requests''), reg_requestsB)"
    using a(2) by (rule register_present)
  show ?thesis
    using GetOrRegister_suppresses_duplicate [OF unlocked_examples(2), where n = "''label''"
         and i = plain_value and env = example_bodies]
      GetOrRegister_suppresses_duplicate [OF unlocked_examples(1), where n = "''requests''"
         and i = reentrant_counter and env = example_bodies and a = 6 and c = 1 and k = 0
         and variadic = False and cs = "{}" and v = counterA and vs = "[]" and ?r1.0 = reg_requestsB]
      GetOrRegister_suppresses_duplicate [OF unlocked_examples(3), where n = "''requests''"
         and i = counterA]
    by (simp add: unlocked_examples b p a s reentrant_counter_def)
qed

section \<open>GetOrRegister: literal or factory\<close>

text \<open>
  A function with a parameter, \<^verbatim>\<open>func(int) Counter\<close>, is of kind \<^verbatim>\<open>Func\<close> too: it is
  not taken as a literal value, and calling it with no arguments panics.
\<close>

theorem GetOrRegister_parameter_func_counterexample:
  "unlocked NewReadWriteRegistry \<and> metrics NewReadWriteRegistry ''requests'' = None \<and>
   one_param_func = Dyn 8 (Func (Fn 0 1 False)) {} \<and>
   GetOrRegister example_bodies ''requests'' one_param_func NewReadWriteRegistry =
     Inl (Panic ''reflect: Call with too few input arguments'')"
proof -
  have u: "unlocked NewReadWriteRegistry" by (rule unlocked_examples)
  have a: "metrics NewReadWriteRegistry ''requests'' = None"
    by (simp add: NewReadWriteRegistry_def)
  have m: "materialize example_bodies one_param_func NewReadWriteRegistry =
     Inl (Panic ''reflect: Call with too few input arguments'')"
    by (simp add: one_param_func_def materialize_def Call_nil_def)
  from GetOrRegister_failure [OF u a m] u a show ?thesis
    by (simp add: one_param_func_def)
qed

text \<open>
  Claim C6, as the code has it. For an absent name, the argument \<open>i\<close> of
  \<open>GetOrRegister\<close> is used as a literal value if and only if it is not of kind
  \<^verbatim>\<open>Func\<close>: then nothing is invoked, \<open>i\<close> is registered and returned, and the call
  completes. A function value, whatever its signature, is never used as a literal; it
  is called reflectively with no arguments. A nil function and a function that requires
  parameters make the call panic, and no body runs. Otherwise the body is invoked
  exactly once: its failure is the failure of the call; when it returns no result the
  call panics; when it returns results, its first result is registered and returned,
  provided the body left the lock free (the call blocks for ever otherwise).
\<close>

theorem GetOrRegister_literal_or_factory:
  assumes "unlocked r" and "metrics r n = None"
  shows "(\<not> is_Func i \<longrightarrow> GetOrRegister env n i r = Inr ((i, []), snd (register n i r))) \<and>
         (i = Dyn a (Func fn) cs \<and> GetOrRegister env n i r = Inr ((v, calls), r') \<longrightarrow>
            calls = [code fn] \<and> (\<exists>vs r1. env (code fn) r = Inr (v # vs, r1))) \<and>
         (i = Dyn a (Func (Fn c k variadic)) cs \<and> (if variadic then k - 1 else k) = 0 \<and>
          env c r = Inr (w # ws, r2) \<and> unlocked r2 \<longrightarrow>
            GetOrRegister env n i r = Inr ((w, [c]), snd (register n w r2))) \<and>
         (i = Dyn a (Func NilFunc) cs \<longrightarrow>
            GetOrRegister env n i r = Inl (Panic ''reflect.Value.Call: call of nil function'')) \<and>
         (i = Dyn a (Func (Fn c k variadic)) cs \<and> 0 < (if variadic then k - 1 else k) \<longrightarrow>
            GetOrRegister env n i r = Inl (Panic ''reflect: Call with too few input arguments'')) \<and>
         (i = Dyn a (Func (Fn c k variadic)) cs \<and> (if variadic then k - 1 else k) = 0 \<and>
          env c r = Inl e \<longrightarrow>
            GetOrRegister env n i r = Inl e) \<and>
         (i = Dyn a (Func (Fn c k variadic)) cs \<and> (if variadic then k - 1 else k) = 0 \<and>
          env c r = Inr ([], r2) \<longrightarrow>
            GetOrRegister env n i r = Inl (Panic ''index out of range [0] with length 0'')) \<and>
         (i = Dyn a (Func (Fn c k variadic)) cs \<and> (if variadic then k - 1 else k) = 0 \<and>
          env c r = Inr (w # ws, r2) \<and> \<not> unlocked r2 \<longrightarrow>
            GetOrRegister env n i r = Inl Deadlock)"
proof (intro conjI impI)
  assume "\<not> is_Func i"
  from GetOrRegister_absent [OF assms materialize_literal [OF this] assms(1)]
  show "GetOrRegister env n i r = Inr ((i, []), snd (register n i r))" .
next
  assume h: "i = Dyn a (Func fn) cs \<and> GetOrRegister env n i r = Inr ((v, calls), r')"
  with GetOrRegister_result [OF assms, of env i v calls r']
  obtain r1 where "materialize env (Dyn a (Func fn) cs) r = Inr ((v, calls), r1)"
    by auto
  from materialize_func_result [OF this]
  show "calls = [code fn]" and "\<exists>vs r1. env (code fn) r = Inr (v # vs, r1)"
    by auto
next
  assume h: "i = Dyn a (Func (Fn c k variadic)) cs \<and> (if variadic then k - 1 else k) = 0 \<and>
          env c r = Inr (w # ws, r2) \<and> unlocked r2"
  then have "materialize env i r = Inr ((w, [c]), r2)"
    by (simp add: materialize_factory)
  from GetOrRegister_absent [OF assms this] h
  show "GetOrRegister env n i r = Inr ((w, [c]), snd (register n w r2))"
    by simp
next
  assume "i = Dyn a (Func NilFunc) cs"
  then have "materialize env i r = Inl (Panic ''reflect.Value.Call: call of nil function'')"
    by (simp add: materialize_def Call_nil_def)
  then show "GetOrRegister env n i r = Inl (Panic ''reflect.Value.Call: call of nil function'')"
    by (rule GetOrRegister_failure [OF assms])
next
  assume "i = Dyn a (Func (Fn c k variadic)) cs \<and> 0 < (if variadic then k - 1 else k)"
  then have "materialize env i r = Inl (Panic ''reflect: Call with too few input arguments'')"
    by (simp add: materialize_def Call_nil_def)
  then show "GetOrRegister env n i r = Inl (Panic ''reflect: Call with too few input arguments'')"
    by (rule GetOrRegister_failure [OF assms])
next
  assume "i = Dyn a (Func (Fn c k variadic)) cs \<and> (if variadic then k - 1 else k) = 0 \<and>
          env c r = Inl e"
  then have "materialize env i r = Inl e"
    by (simp add: materialize_def Call_nil_def)
  then show "GetOrRegister env n i r = Inl e"
    by (rule GetOrRegister_failure [OF assms])
next
  assume "i = Dyn a (Func (Fn c k variadic)) cs \<and> (if variadic then k - 1 else k) = 0 \<and>
          env c r = Inr ([], r2)"
  then have "materialize env i r = Inl (Panic ''index out of range [0] with length 0'')"
    by (simp add: materialize_def Call_nil_def first_result_def)
  then show "GetOrRegister env n i r = Inl (Panic ''index out of range [0] with length 0'')"
    by (rule GetOrRegister_failure [OF assms])
next
  assume h: "i = Dyn a (Func (Fn c k variadic)) cs \<and> (if variadic then k - 1 else k) = 0 \<and>
          env c r = Inr (w # ws, r2) \<and> \<not> unlocked r2"
  then have m: "materialize env i r = Inr ((w, [c]), r2)"
    by (simp add: materialize_factory)
  from h have "Lock r2 = Inl Deadlock"
    by (auto simp: Lock_def unlocked_def)
  with m assms(2) show "GetOrRegister env n i r = Inl Deadlock"
    by (simp add: GetOrRegister_def read_section [OF assms(1)])
qed

theorem GetOrRegister_literal_or_factory_witness:
  "unlocked NewReadWriteRegistry \<and> metrics NewReadWriteRegistry ''requests'' = None \<and>
   \<not> is_Func counterB \<and>
   GetOrRegister example_bodies ''requests'' counterB NewReadWriteRegistry = Inr ((counterB, []), reg_requestsB) \<and>
   example_bodies 0 NewReadWriteRegistry = Inr ([counterA], NewReadWriteRegistry) \<and>
   GetOrRegister example_bodies ''requests'' lazy_counter NewReadWriteRegistry = Inr ((counterA, [0]), reg_requests) \<and>
   GetOrRegister example_bodies ''requests'' (Dyn 9 (Func NilFunc) {}) NewReadWriteRegistry =
     Inl (Panic ''reflect.Value.Call: call of nil function'') \<and>
   GetOrRegister example_bodies ''requests'' (Dyn 8 (Func (Fn 0 1 False)) {}) NewReadWriteRegistry =
     Inl (Panic ''reflect: Call with too few input arguments'') \<and>
   example_bodies 2 NewReadWriteRegistry = Inr ([], NewReadWriteRegistry) \<and>
   GetOrRegister example_bodies ''requests'' (Dyn 7 (Func (Fn 2 0 False)) {}) NewReadWriteRegistry =
     Inl (Panic ''index out of range [0] with length 0'')"
proof -
  have a: "metrics NewReadWriteRegistry ''requests'' = None"
    by (simp add: NewReadWriteRegistry_def)
  have s: "snd (register ''requests'' counterB NewReadWriteRegistry) = reg_requestsB"
    "snd (register ''requests'' counterA NewReadWriteRegistry) = reg_requests"
    by (simp_all add: register_snd recognized_def counterA_def counterB_def
          NewReadWriteRegistry_def reg_requests_def reg_requestsB_def)
  note t = GetOrRegister_literal_or_factory [OF unlocked_examples(1) a]
  have 1: "GetOrRegister example_bodies ''requests'' counterB NewReadWriteRegistry = Inr ((counterB, []), reg_requestsB)"
    using t [where i = counterB and env = example_bodies] s
    by (simp add: counterB_def)
  have 2: "GetOrRegister example_bodies ''requests'' lazy_counter NewReadWriteRegistry = Inr ((counterA, [0]), reg_requests)"
    using t [where i = lazy_counter and env = example_bodies and a = 5 and c = 0 and k = 0
         and variadic = False and cs = "{}" and w = counterA and ws = "[]"
         and ?r2.0 = NewReadWriteRegistry] s
    by (simp add: lazy_counter_def example_bodies_simps unlocked_examples)
  have 3: "GetOrRegister example_bodies ''requests'' (Dyn 9 (Func NilFunc) {}) NewReadWriteRegistry =
     Inl (Panic ''reflect.Value.Call: call of nil function'')"
    using t [where i = "Dyn 9 (Func NilFunc) {}" and env = example_bodies and a = 9 and cs = "{}"]
    by simp
  have 4: "GetOrRegister example_bodies ''requests'' (Dyn 8 (Func (Fn 0 1 False)) {}) NewReadWriteRegistry =
     Inl (Panic ''reflect: Call with too few input arguments'')"
    using t [where i = "Dyn 8 (Func (Fn 0 1 False)) {}" and env = example_bodies and a = 8
         and c = 0 and k = 1 and variadic = False and cs = "{}"]
    by simp
  have 5: "GetOrRegister example_bodies ''requests'' (Dyn 7 (Func (Fn 2 0 False)) {}) NewReadWriteRegistry =
     Inl (Panic ''index out of range [0] with length 0'')"
    using t [where i = "Dyn 7 (Func (Fn 2 0 False)) {}" and env = example_bodies and a = 7
         and c = 2 and k = 0 and variadic = False and cs = "{}" and ?r2.0 = NewReadWriteRegistry]
    by (simp add: example_bodies_simps)
  show ?thesis
    using 1 2 3 4 5 a by (simp add: unlocked_examples example_bodies_simps counterB_def)
qed

section \<open>Each\<close>

text \<open>
  Claim C7. \<open>Each f\<close> takes a snapshot of the registry and then calls the visitor \<open>f\<close>
  once for each pair of name and metric of that snapshot, in the order of its loop, each
  call on the registry as the call before left it, and calls it for nothing else: the
  pairs are those the registry held when \<open>Each\<close> was called, each exactly once, whatever
  the visitor does to the registry meanwhile, since the snapshot is a copy. A failure of
  the visitor is the failure of \<open>Each\<close>. When the visitor returns whenever it is called
  with the lock free, and leaves the lock free, as one that calls \<open>Register\<close> and
  \<open>Unregister\<close> does, \<open>Each\<close> returns.
\<close>

theorem Each_visits_snapshot:
  assumes "unlocked r" and "enumerates ks (metrics r)" and "enumerates ks' (metrics r)"
  shows "Each f ks ks' r =
           (case call_each (\<lambda>(n, i). f n i) (entries_in ks' (metrics r)) r of
              Inl e \<Rightarrow> Inl e
            | Inr r' \<Rightarrow> Inr (entries_in ks' (metrics r), r')) \<and>
         distinct (entries_in ks' (metrics r)) \<and>
         set (entries_in ks' (metrics r)) = {(n, i). metrics r n = Some i} \<and>
         ((\<forall>n i s. unlocked s \<longrightarrow> (\<exists>s'. f n i s = Inr s' \<and> unlocked s')) \<longrightarrow>
            (\<exists>r'. Each f ks ks' r = Inr (entries_in ks' (metrics r), r') \<and> unlocked r'))"
proof -
  have 1: "Each f ks ks' r =
           (case call_each (\<lambda>(n, i). f n i) (entries_in ks' (metrics r)) r of
              Inl e \<Rightarrow> Inl e
            | Inr r' \<Rightarrow> Inr (entries_in ks' (metrics r), r'))"
    by (simp add: Each_def registered_unlocked [OF assms(1,2)] visit_each_calls split: sum.splits)
  have 2: "\<exists>r'. Each f ks ks' r = Inr (entries_in ks' (metrics r), r') \<and> unlocked r'"
    if "\<forall>n i s. unlocked s \<longrightarrow> (\<exists>s'. f n i s = Inr s' \<and> unlocked s')"
  proof -
    from that have "\<forall>x s. unlocked s \<longrightarrow> (\<exists>s'. (\<lambda>(n, i). f n i) x s = Inr s' \<and> unlocked s')"
      by (simp add: split_beta)
    from call_each_total [OF this assms(1)]
    obtain r' where "call_each (\<lambda>(n, i). f n i) (entries_in ks' (metrics r)) r = Inr r'"
      and "unlocked r'" by blast
    with 1 show ?thesis by simp
  qed
  from 1 2 entries_in_enumerates [OF assms(3)] show ?thesis by blast
qed

theorem Each_visits_snapshot_witness:
  "unlocked reg_two \<and> enumerates [''requests'', ''db''] (metrics reg_two) \<and>
   enumerates [''db'', ''requests''] (metrics reg_two) \<and>
   Each mutating_visitor [''requests'', ''db''] [''db'', ''requests''] reg_two =
     Inr ([(''db'', healthA), (''requests'', counterA)], reg_seen) \<and>
   metrics reg_seen ''requests'' = None \<and> metrics reg_seen ''db-seen'' = Some healthA \<and>
   metrics reg_seen ''requests-seen'' = Some counterA"
proof -
  have e: "entries_in [''db'', ''requests''] (metrics reg_two) = [(''db'', healthA), (''requests'', counterA)]"
    by (simp add: reg_two_def NewReadWriteRegistry_def)
  note t = Each_visits_snapshot [OF unlocked_examples(4) enumerates_reg_two, of mutating_visitor,
      THEN conjunct1]
  have "Each mutating_visitor [''requests'', ''db''] [''db'', ''requests''] reg_two =
     Inr ([(''db'', healthA), (''requests'', counterA)], reg_seen)"
    unfolding t e mutating_visitor_run by simp
  then show ?thesis
    by (simp add: unlocked_examples enumerates_reg_two) (simp add: reg_seen_def NewReadWriteRegistry_def)
qed

section \<open>RunHealthchecks\<close>

text \<open>
  Claim C8. \<open>RunHealthchecks\<close> takes the read lock and calls \<^verbatim>\<open>Check\<close> once for each
  entry of the registry whose value satisfies \<open>Healthcheck\<close>, in the order of its loop,
  each call on the registry as the call before left it, and calls it for no other entry;
  then it releases the lock. These entries are exactly the registered entries that
  satisfy \<open>Healthcheck\<close>, each once. A failure of a \<^verbatim>\<open>Check\<close> is the failure of
  \<open>RunHealthchecks\<close>. This holds for every \<^verbatim>\<open>Check\<close> that does not change the map
  (the read lock is held, so a \<^verbatim>\<open>Check\<close> that tried would block); when each \<^verbatim>\<open>Check\<close>
  returns and leaves the registry as it was, so does \<open>RunHealthchecks\<close>.
\<close>

theorem RunHealthchecks_checks:
  assumes "unlocked r" and "enumerates ks (metrics r)"
    and "\<forall>i s s'. chk i s = Inr s' \<longrightarrow> metrics s' = metrics s"
  shows "RunHealthchecks chk ks r =
           (case RLock r of
              Inl e \<Rightarrow> Inl e
            | Inr r0 \<Rightarrow>
                (case call_each (\<lambda>(n, i). chk i) (healthchecks_in ks (metrics r)) r0 of
                   Inl e \<Rightarrow> Inl e
                 | Inr r1 \<Rightarrow>
                     (case RUnlock r1 of
                        Inl e \<Rightarrow> Inl e
                      | Inr r2 \<Rightarrow> Inr (healthchecks_in ks (metrics r), r2)))) \<and>
         distinct (healthchecks_in ks (metrics r)) \<and>
         set (healthchecks_in ks (metrics r)) =
           {(n, i). metrics r n = Some i \<and> satisfies i Healthcheck} \<and>
         ((\<forall>i s. rlocked s \<longrightarrow> chk i s = Inr s) \<longrightarrow>
            RunHealthchecks chk ks r = Inr (healthchecks_in ks (metrics r), r))"
proof -
  let ?r0 = "r\<lparr>mutex := \<lparr>readers = Suc 0, writer = False\<rparr>\<rparr>"
  note rs = read_section [OF assms(1)]
  have c: "check_each chk ks [] ?r0 =
     (case call_each (\<lambda>(n, i). chk i) (healthchecks_in ks (metrics r)) ?r0 of
        Inl e \<Rightarrow> Inl e
      | Inr r' \<Rightarrow> Inr (healthchecks_in ks (metrics r), r'))"
    using check_each_calls [OF assms(3), of ks "[]" ?r0]
    by (simp add: healthchecks_in_def split: sum.splits)
  have 1: "RunHealthchecks chk ks r =
           (case RLock r of
              Inl e \<Rightarrow> Inl e
            | Inr r0 \<Rightarrow>
                (case call_each (\<lambda>(n, i). chk i) (healthchecks_in ks (metrics r)) r0 of
                   Inl e \<Rightarrow> Inl e
                 | Inr r1 \<Rightarrow>
                     (case RUnlock r1 of
                        Inl e \<Rightarrow> Inl e
                      | Inr r2 \<Rightarrow> Inr (healthchecks_in ks (metrics r), r2))))"
    by (simp add: RunHealthchecks_def rs(1) c split: sum.splits)
  have 2: "RunHealthchecks chk ks r = Inr (healthchecks_in ks (metrics r), r)"
    if "\<forall>i s. rlocked s \<longrightarrow> chk i s = Inr s"
  proof -
    from that have "\<forall>x s. rlocked s \<longrightarrow> (\<lambda>(n, i). chk i) x s = Inr s"
      by (simp add: split_beta)
    moreover have "rlocked ?r0" by (simp add: rlocked_def)
    ultimately have "call_each (\<lambda>(n, i). chk i) (healthchecks_in ks (metrics r)) ?r0 = Inr ?r0"
      by (rule call_each_same)
    with 1 show ?thesis by (simp add: rs)
  qed
  from entries_in_enumerates [OF assms(2)]
  have 3: "distinct (healthchecks_in ks (metrics r))"
    "set (healthchecks_in ks (metrics r)) = {(n, i). metrics r n = Some i \<and> satisfies i Healthcheck}"
    by (auto simp: healthchecks_in_def)
  from 1 2 3 show ?thesis by blast
qed

theorem RunHealthchecks_checks_witness:
  "unlocked reg_two \<and> enumerates [''requests'', ''db''] (metrics reg_two) \<and>
   satisfies healthA Healthcheck \<and> \<not> satisfies counterA Healthcheck \<and>
   RunHealthchecks reading_check [''requests'', ''db''] reg_two = Inr ([(''db'', healthA)], reg_two) \<and>
   RunHealthchecks panicking_check [''requests'', ''db''] reg_two = Inl (Panic ''check failed'') \<and>
   RunHealthchecks panicking_check [''requests''] reg_requests = Inr ([], reg_requests)"
proof -
  have h: "healthchecks_in [''requests'', ''db''] (metrics reg_two) = [(''db'', healthA)]"
    "healthchecks_in [''requests''] (metrics reg_requests) = []"
    by (simp_all add: healthchecks_in_def reg_two_def reg_requests_def NewReadWriteRegistry_def
          healthA_def counterA_def)
  have k: "\<forall>i s s'. reading_check i s = Inr s' \<longrightarrow> metrics s' = metrics s"
    by (auto simp: reading_check_def Get_def RLock_def RUnlock_def split: if_splits)
  have p: "\<forall>i s s'. panicking_check i s = Inr s' \<longrightarrow> metrics s' = metrics s"
    by (simp add: panicking_check_def)
  have e: "enumerates [''requests''] (metrics reg_requests)"
    by (auto simp: enumerates_def reg_requests_def NewReadWriteRegistry_def)
  note t1 = RunHealthchecks_checks [OF unlocked_examples(4) enumerates_reg_two(1) k,
      THEN conjunct2, THEN conjunct2, THEN conjunct2, THEN mp, OF reading_check_ok]
  note t2 = RunHealthchecks_checks [OF unlocked_examples(4) enumerates_reg_two(1) p, THEN conjunct1]
  note t3 = RunHealthchecks_checks [OF unlocked_examples(2) e p, THEN conjunct1]
  have 1: "RunHealthchecks reading_check [''requests'', ''db''] reg_two = Inr ([(''db'', healthA)], reg_two)"
    unfolding t1 h by simp
  have 2: "RunHealthchecks panicking_check [''requests'', ''db''] reg_two = Inl (Panic ''check failed'')"
    unfolding t2 h by (simp add: read_section [OF unlocked_examples(4)] panicking_check_def)
  have 3: "RunHealthchecks panicking_check [''requests''] reg_requests = Inr ([], reg_requests)"
    unfolding t3 h by (simp add: read_section [OF unlocked_examples(2)])
  from 1 2 3 show ?thesis
    by (simp add: unlocked_examples enumerates_reg_two) (simp add: healthA_def counterA_def)
qed

end
